theory Spec2Isabelle
  imports Main "HOL-Library.Sublist"
begin

section \<open>Strings\<close>

text \<open>
  Strings are byte strings (UTF-8). The JavaScript string operations used by the search
  suggestion route are modelled on the ASCII range: \<open>toLowerCase\<close> maps \<open>A..Z\<close> to
  \<open>a..z\<close> and leaves every other byte alone, and white space is the ASCII white space
  (tab, line feed, vertical tab, form feed, carriage return, space). The arrow of the route
  labels and keys is the three bytes of U+2192. The length of a string counts its bytes,
  which for ASCII text is the length JavaScript reports.
\<close>

definition is_ws :: "char \<Rightarrow> bool" where
  "is_ws c = (of_char c \<in> {9, 10, 11, 12, 13, 32 :: nat})"

definition lower_char :: "char \<Rightarrow> char" where
  "lower_char c =
     (if 65 \<le> (of_char c :: nat) \<and> (of_char c :: nat) \<le> 90
      then char_of (of_char c + 32 :: nat) else c)"

definition toLowerCase :: "string \<Rightarrow> string" where
  "toLowerCase s = map lower_char s"

definition trim :: "string \<Rightarrow> string" where
  "trim s = rev (dropWhile is_ws (rev (dropWhile is_ws s)))"

definition startsWith :: "string \<Rightarrow> string \<Rightarrow> bool" where
  "startsWith s p = prefix p s"

definition includes_str :: "string \<Rightarrow> string \<Rightarrow> bool" where
  "includes_str s p = sublist p s"

definition arrow :: string where
  "arrow = [CHR 0xE2, CHR 0x86, CHR 0x92]"

text \<open>\<open>s.split(/\s+/)\<close>: the pieces between maximal runs of white space; a string that
  starts or ends with white space yields an empty first or last piece, and the empty string
  yields one empty piece.\<close>

function split_ws :: "string \<Rightarrow> string list" where
  "split_ws [] = [[]]"
| "split_ws (c # cs) =
     (if is_ws c then [] # split_ws (dropWhile is_ws cs)
      else (case split_ws cs of [] \<Rightarrow> [[c]] | w # ws \<Rightarrow> (c # w) # ws))"
  by pat_completeness auto
termination
  by (relation "measure length") (auto simp: length_dropWhile_le less_Suc_eq_le)

text \<open>Decimal rendering of an array index inside a template string.\<close>

fun digits :: "nat \<Rightarrow> string" where
  "digits n =
     (if n < 10 then [''0123456789'' ! n]
      else digits (n div 10) @ [''0123456789'' ! (n mod 10)])"

declare digits.simps [simp del]

text \<open>An optional string field: \<open>None\<close> is \<open>undefined\<close>. \<open>x || ''\<close> and the
  truthiness test of JavaScript (the empty string is falsy).\<close>

definition orEmpty :: "string option \<Rightarrow> string" where
  "orEmpty x = (case x of None \<Rightarrow> [] | Some s \<Rightarrow> s)"

definition truthy :: "string option \<Rightarrow> bool" where
  "truthy x = (orEmpty x \<noteq> [])"

definition orUndefined :: "string \<Rightarrow> string option" where
  "orUndefined s = (if s = [] then None else Some s)"

section \<open>Rate limiter\<close>

record rl_record =
  count :: int
  resetTime :: int

type_synonym rateLimitMap = "string \<rightharpoonup> rl_record"

definition RATE_LIMIT_WINDOW :: int where
  "RATE_LIMIT_WINDOW = 60 * 1000"

definition RATE_LIMIT_MAX_REQUESTS :: int where
  "RATE_LIMIT_MAX_REQUESTS = 10"

text \<open>The search route \<open>app/api/search/route.ts\<close> has the same limiter with a quota of 15.\<close>

definition RATE_LIMIT_MAX_REQUESTS_search :: int where
  "RATE_LIMIT_MAX_REQUESTS_search = 15"

text \<open>
  \<open>checkRateLimit\<close> with its two constants and the clock reading \<open>Date.now()\<close> as
  parameters. The global map is passed in and returned.
\<close>

definition checkRateLimit_with ::
  "int \<Rightarrow> int \<Rightarrow> int \<Rightarrow> string \<Rightarrow> rateLimitMap \<Rightarrow> bool \<times> rateLimitMap" where
  "checkRateLimit_with window maxRequests now ip m =
     (case m ip of
        None \<Rightarrow> (True, m(ip \<mapsto> \<lparr>count = 1, resetTime = now + window\<rparr>))
      | Some record \<Rightarrow>
          if now > resetTime record
          then (True, m(ip \<mapsto> \<lparr>count = 1, resetTime = now + window\<rparr>))
          else if count record \<ge> maxRequests then (False, m)
          else (True, m(ip \<mapsto> record\<lparr>count := count record + 1\<rparr>)))"

definition checkRateLimit :: "int \<Rightarrow> string \<Rightarrow> rateLimitMap \<Rightarrow> bool \<times> rateLimitMap" where
  "checkRateLimit = checkRateLimit_with RATE_LIMIT_WINDOW RATE_LIMIT_MAX_REQUESTS"

definition checkRateLimit_search :: "int \<Rightarrow> string \<Rightarrow> rateLimitMap \<Rightarrow> bool \<times> rateLimitMap" where
  "checkRateLimit_search = checkRateLimit_with RATE_LIMIT_WINDOW RATE_LIMIT_MAX_REQUESTS_search"

text \<open>A run of requests of one client, at the given clock readings: the answers, oldest
  first, and the map afterwards.\<close>

fun requests ::
  "int \<Rightarrow> int \<Rightarrow> string \<Rightarrow> int list \<Rightarrow> rateLimitMap \<Rightarrow> bool list \<times> rateLimitMap" where
  "requests window maxRequests ip [] m = ([], m)"
| "requests window maxRequests ip (t # ts) m =
     (let (a, m') = checkRateLimit_with window maxRequests t ip m;
          (as, m'') = requests window maxRequests ip ts m'
      in (a # as, m''))"

section \<open>Suggestions\<close>

datatype source = Static | Database | AI

datatype stype = State | City | Route | Destination

text \<open>The objects built by the three sources carry a \<open>type\<close> where the source sets one
  (the fallback suggestions of the generative adapter set none).\<close>

record Suggestion =
  sug_id :: string
  label :: string
  origin :: "string option"
  destination :: "string option"
  type :: "stype option"
  source :: source
  relevanceScore :: int
  description :: "string option"

definition normalizeRoute :: "string option \<Rightarrow> string option \<Rightarrow> string" where
  "normalizeRoute origin' destination' =
     (let o' = trim (toLowerCase (orEmpty origin'));
          d = trim (toLowerCase (orEmpty destination'))
      in if o' \<noteq> [] \<and> d \<noteq> [] then o' @ arrow @ d
         else if d \<noteq> [] then d else o')"

definition calculateRelevanceScore :: "string option \<Rightarrow> string option \<Rightarrow> string \<Rightarrow> int" where
  "calculateRelevanceScore origin' destination' query =
     (let q = trim (toLowerCase query);
          orig = toLowerCase (orEmpty origin');
          dest = toLowerCase (orEmpty destination')
      in if orig = q \<or> dest = q then 100
         else if startsWith orig q \<or> startsWith dest q then 80
         else if includes_str orig q \<or> includes_str dest q then 60
         else
           let originWords = split_ws orig;
               destWords = split_ws dest;
               queryWords = split_ws q;
               hasWordMatch =
                 list_ex (\<lambda>qw. list_ex (\<lambda>ow. startsWith ow qw) originWords \<or>
                                list_ex (\<lambda>dw. startsWith dw qw) destWords) queryWords
           in if hasWordMatch then 40 else 20)"

text \<open>The priority table \<open>{ static: 3, database: 2, ai: 1 }\<close>.\<close>

fun sourcePriority :: "source \<Rightarrow> nat" where
  "sourcePriority Static = 3"
| "sourcePriority Database = 2"
| "sourcePriority AI = 1"

text \<open>\<open>Map.prototype.set\<close> on a map kept in insertion order: an existing key keeps its
  place, a new key goes to the end.\<close>

fun map_set :: "'k \<Rightarrow> 'v \<Rightarrow> ('k \<times> 'v) list \<Rightarrow> ('k \<times> 'v) list" where
  "map_set k v [] = [(k, v)]"
| "map_set k v ((k', v') # kvs) =
     (if k' = k then (k, v) # kvs else (k', v') # map_set k v kvs)"

definition dedup_step ::
  "(string \<times> Suggestion) list \<Rightarrow> Suggestion \<Rightarrow> (string \<times> Suggestion) list" where
  "dedup_step seen sug =
     (let key = normalizeRoute (origin sug) (destination sug)
      in case map_of seen key of
           None \<Rightarrow> map_set key sug seen
         | Some existing \<Rightarrow>
             let existingPriority = sourcePriority (source existing);
                 sugPriority = sourcePriority (source sug)
             in if sugPriority > existingPriority then map_set key sug seen
                else if sugPriority = existingPriority \<and>
                        relevanceScore sug > relevanceScore existing
                then map_set key sug seen
                else seen)"

definition deduplicateSuggestions :: "Suggestion list \<Rightarrow> Suggestion list" where
  "deduplicateSuggestions suggestions = map snd (foldl dedup_step [] suggestions)"

text \<open>The words of a string: its maximal runs of characters that are not white space.\<close>

function wordsOf :: "string \<Rightarrow> string list" where
  "wordsOf s =
     (case dropWhile is_ws s of
        [] \<Rightarrow> []
      | c # cs \<Rightarrow> takeWhile (\<lambda>x. \<not> is_ws x) (c # cs) #
                  wordsOf (dropWhile (\<lambda>x. \<not> is_ws x) cs))"
  by pat_completeness auto
termination
proof (relation "measure length")
  show "wf (measure length)" by simp
next
  fix s :: string and c cs
  assume a: "dropWhile is_ws s = c # cs"
  have "length (dropWhile (\<lambda>x. \<not> is_ws x) cs) \<le> length cs"
    by (rule length_dropWhile_le)
  moreover have "length (c # cs) \<le> length s"
    using length_dropWhile_le[of is_ws s] a by simp
  ultimately show "(dropWhile (\<lambda>x. \<not> is_ws x) cs, s) \<in> measure length" by simp
qed

declare wordsOf.simps [simp del]

text \<open>The identity key of a suggestion, and the order of the deduplicator in words: a
  higher source priority wins, and on equal priority a strictly higher score wins.\<close>

definition routeKey :: "Suggestion \<Rightarrow> string" where
  "routeKey s = normalizeRoute (origin s) (destination s)"

definition outranks :: "Suggestion \<Rightarrow> Suggestion \<Rightarrow> bool" where
  "outranks a b =
     (sourcePriority (source a) > sourcePriority (source b) \<or>
      (sourcePriority (source a) = sourcePriority (source b) \<and>
       relevanceScore a > relevanceScore b))"

text \<open>The candidate a group ends with when it is scanned from its first member \<open>w\<close>.\<close>

fun best :: "Suggestion \<Rightarrow> Suggestion list \<Rightarrow> Suggestion" where
  "best w [] = w"
| "best w (s # ss) = best (if outranks s w then s else w) ss"

definition keyed :: "(string \<times> Suggestion) list \<Rightarrow> bool" where
  "keyed S = (distinct (map fst S) \<and> (\<forall>(k, v) \<in> set S. routeKey v = k))"

section \<open>Gazetteer (\<open>lib/us-locations.ts\<close>)\<close>

definition US_STATES :: "string list" where
  "US_STATES =
    [''Alabama'', ''Alaska'', ''Arizona'', ''Arkansas'', ''California'', ''Colorado'',
     ''Connecticut'', ''Delaware'', ''Florida'', ''Georgia'', ''Hawaii'', ''Idaho'',
     ''Illinois'', ''Indiana'', ''Iowa'', ''Kansas'', ''Kentucky'', ''Louisiana'',
     ''Maine'', ''Maryland'', ''Massachusetts'', ''Michigan'', ''Minnesota'', ''Mississippi'',
     ''Missouri'', ''Montana'', ''Nebraska'', ''Nevada'', ''New Hampshire'', ''New Jersey'',
     ''New Mexico'', ''New York'', ''North Carolina'', ''North Dakota'', ''Ohio'', ''Oklahoma'',
     ''Oregon'', ''Pennsylvania'', ''Rhode Island'', ''South Carolina'', ''South Dakota'',
     ''Tennessee'', ''Texas'', ''Utah'', ''Vermont'', ''Virginia'', ''Washington'',
     ''West Virginia'', ''Wisconsin'', ''Wyoming'']"

definition MAJOR_CITIES :: "string list" where
  "MAJOR_CITIES =
    [''New York'', ''Los Angeles'', ''Chicago'', ''Houston'', ''Phoenix'', ''Philadelphia'',
     ''San Antonio'', ''San Diego'', ''Dallas'', ''San Jose'', ''Austin'', ''Jacksonville'',
     ''Fort Worth'', ''Columbus'', ''Charlotte'', ''San Francisco'', ''Indianapolis'',
     ''Seattle'', ''Denver'', ''Washington'', ''Boston'', ''El Paso'', ''Nashville'',
     ''Detroit'', ''Oklahoma City'', ''Portland'', ''Las Vegas'', ''Memphis'', ''Louisville'',
     ''Baltimore'', ''Milwaukee'', ''Albuquerque'', ''Tucson'', ''Fresno'', ''Sacramento'',
     ''Kansas City'', ''Mesa'', ''Atlanta'', ''Omaha'', ''Colorado Springs'', ''Raleigh'',
     ''Virginia Beach'', ''Miami'', ''Oakland'', ''Minneapolis'', ''Tulsa'', ''Cleveland'',
     ''Wichita'', ''Arlington'', ''Tampa'', ''New Orleans'']"

record USLocation =
  loc_id :: string
  name :: string
  loc_type :: stype

definition getAllUSLocations :: "USLocation list" where
  "getAllUSLocations =
     (let states = map (\<lambda>(idx, state). \<lparr>loc_id = ''state-'' @ digits idx, name = state, loc_type = State\<rparr>)
                       (enumerate 0 US_STATES);
          cities = map (\<lambda>(idx, city). \<lparr>loc_id = ''city-'' @ digits idx, name = city, loc_type = City\<rparr>)
                       (enumerate 0 MAJOR_CITIES)
      in states @ cities)"

text \<open>
  \<open>String.prototype.localeCompare\<close> is the collation of the host. The model compares the
  lower-cased bytes: on the names of the gazetteer (ASCII letters and single spaces, any two
  different names differing in a letter or in length) the two agree.
\<close>

fun compare_bytes :: "string \<Rightarrow> string \<Rightarrow> int" where
  "compare_bytes [] [] = 0"
| "compare_bytes [] (y # ys) = -1"
| "compare_bytes (x # xs) [] = 1"
| "compare_bytes (x # xs) (y # ys) =
     (if (of_char x :: nat) < of_char y then -1
      else if (of_char y :: nat) < of_char x then 1
      else compare_bytes xs ys)"

definition localeCompare :: "string \<Rightarrow> string \<Rightarrow> int" where
  "localeCompare a b = compare_bytes (toLowerCase a) (toLowerCase b)"

text \<open>\<open>Array.prototype.sort\<close> with a comparator: a stable sort, here by insertion from
  the right, so that of two elements that compare as equal the earlier stays first.\<close>

fun insert_sorted :: "('a \<Rightarrow> 'a \<Rightarrow> int) \<Rightarrow> 'a \<Rightarrow> 'a list \<Rightarrow> 'a list" where
  "insert_sorted cmp x [] = [x]"
| "insert_sorted cmp x (y # ys) =
     (if cmp x y \<le> 0 then x # y # ys else y # insert_sorted cmp x ys)"

definition array_sort :: "('a \<Rightarrow> 'a \<Rightarrow> int) \<Rightarrow> 'a list \<Rightarrow> 'a list" where
  "array_sort cmp xs = foldr (insert_sorted cmp) xs []"

definition location_order :: "string \<Rightarrow> USLocation \<Rightarrow> USLocation \<Rightarrow> int" where
  "location_order q a b =
     (let aLower = toLowerCase (name a);
          bLower = toLowerCase (name b);
          aExact = (aLower = q);
          bExact = (bLower = q)
      in if aExact \<and> \<not> bExact then -1
         else if \<not> aExact \<and> bExact then 1
         else if startsWith aLower q \<and> \<not> startsWith bLower q then -1
         else if \<not> startsWith aLower q \<and> startsWith bLower q then 1
         else localeCompare (name a) (name b))"

definition filterUSLocations :: "string \<Rightarrow> nat \<Rightarrow> USLocation list" where
  "filterUSLocations query limit =
     (let q = toLowerCase (trim query)
      in if q = [] \<or> length q < 1 then []
         else
           let allLocations = getAllUSLocations;
               filtered = filter (\<lambda>location. includes_str (toLowerCase (name location)) q)
                                 allLocations
           in take limit (array_sort (location_order q) filtered))"

section \<open>The three sources\<close>

text \<open>
  What one request reads from outside: the provider credential of the process
  environment, the trip store, the generative provider, and the clock and random parts of
  the identifiers it builds. A failing collaborator answers \<open>Inl\<close> with the thrown error.
\<close>

datatype js_error = JsError (err_status: "nat option") (err_message: string)

record Trip =
  trip_id :: string
  trip_origin :: string
  trip_destination :: string

text \<open>One element of the provider's arrays, with the properties the adapter reads; a
  property is a string or absent.\<close>

record ai_item =
  s_type :: "string option"
  s_name :: "string option"
  s_origin :: "string option"
  s_destination :: "string option"
  s_mode :: "string option"
  s_description :: "string option"

text \<open>
  The content of the completion as \<open>JSON.parse\<close> sees it: text it rejects (the empty
  content too), \<open>null\<close>, or a value with the three properties the adapter looks at, each an
  array or not one (\<open>None\<close>). An element of an array is \<open>None\<close> when it is \<open>null\<close>.
\<close>

datatype ai_json =
    NotJson
  | JsonNull
  | JsonValue (j_suggestions: "ai_item option list option")
              (j_routes: "ai_item option list option")
              (j_destinations: "ai_item option list option")

record env =
  OPENAI_API_KEY :: "string option"
  findMany :: "string \<Rightarrow> js_error + Trip list"
  chat_completion :: "string \<Rightarrow> js_error + ai_json"
  nonce :: "nat \<Rightarrow> string"

text \<open>\<open>a || b\<close> on optional strings.\<close>

definition or_else :: "string option \<Rightarrow> string option \<Rightarrow> string option" where
  "or_else a b = (if truthy a then a else b)"

text \<open>The filter over a \<open>Set\<close> of keys already seen.\<close>

fun unique_by :: "('a \<Rightarrow> string) \<Rightarrow> string list \<Rightarrow> 'a list \<Rightarrow> 'a list" where
  "unique_by key seen [] = []"
| "unique_by key seen (x # xs) =
     (if key x \<in> set seen then unique_by key seen xs
      else x # unique_by key (key x # seen) xs)"

text \<open>The history matcher. \<open>findMany\<close> stands for the store's answer to the query for
  trips whose origin or destination contains \<open>q\<close>, newest first; the option \<open>take: 20\<close>
  is the cut to twenty rows. The call is inside the matcher's \<open>try\<close> block.\<close>

definition getDatabaseSuggestions :: "env \<Rightarrow> string \<Rightarrow> Suggestion list" where
  "getDatabaseSuggestions e query =
     (let q = trim query
      in if q = [] \<or> length q < 2 then []
         else
           case findMany e q of
             Inl error \<Rightarrow> []
           | Inr rows \<Rightarrow>
               let trips = take 20 rows;
                   uniqueTrips =
                     unique_by (\<lambda>trip. toLowerCase (trip_origin trip) @ arrow @
                                         toLowerCase (trip_destination trip)) [] trips
               in map (\<lambda>trip.
                        \<lparr>sug_id = ''db:'' @ trip_id trip,
                         label = trip_origin trip @ '' '' @ arrow @ '' '' @ trip_destination trip,
                         origin = Some (trip_origin trip),
                         destination = Some (trip_destination trip),
                         type = Some Route,
                         source = Database,
                         relevanceScore =
                           calculateRelevanceScore (Some (trip_origin trip))
                             (Some (trip_destination trip)) q,
                         description = None\<rparr>)
                      (take 10 uniqueTrips))"

text \<open>The two fallback shapes of the provider's answer, rewritten to the shape of
  \<open>suggestions\<close>.\<close>

definition from_route :: "ai_item \<Rightarrow> ai_item" where
  "from_route r =
     \<lparr>s_type = Some ''route'',
      s_name = (if truthy (s_origin r) \<and> truthy (s_destination r)
                then Some (orEmpty (s_origin r) @ '' '' @ arrow @ '' '' @ orEmpty (s_destination r))
                else or_else (s_destination r) (s_origin r)),
      s_origin = s_origin r,
      s_destination = s_destination r,
      s_mode = s_mode r,
      s_description = s_description r\<rparr>"

definition from_destination :: "ai_item \<Rightarrow> ai_item" where
  "from_destination d =
     \<lparr>s_type = Some ''destination'',
      s_name = or_else (s_name d) (s_destination d),
      s_origin = None,
      s_destination = or_else (s_destination d) (s_name d),
      s_mode = None,
      s_description = s_description d\<rparr>"

definition to_suggestion :: "env \<Rightarrow> string \<Rightarrow> nat \<times> ai_item \<Rightarrow> Suggestion" where
  "to_suggestion e query p =
     (let idx = fst p; s = snd p;
          isRoute = (s_type s = Some ''route'' \<or>
                     (truthy (s_origin s) \<and> truthy (s_destination s) \<and>
                      s_origin s \<noteq> s_destination s));
          destination' = orEmpty (or_else (s_destination s) (s_name s));
          origin' = orEmpty (s_origin s);
          mode = orEmpty (s_mode s);
          routeShaped = (isRoute \<and> origin' \<noteq> [] \<and> destination' \<noteq> []);
          label' = (if routeShaped
                    then (if mode \<noteq> []
                          then origin' @ '' '' @ arrow @ '' '' @ destination' @ '' ('' @ mode @ '')''
                          else origin' @ '' '' @ arrow @ '' '' @ destination')
                    else orEmpty (or_else (s_name s) (Some destination')));
          suggestionType = (if routeShaped then Route else Destination)
      in \<lparr>sug_id = ''ai:'' @ digits idx @ ''-'' @ nonce e idx,
          label = label',
          origin = orUndefined origin',
          destination = Some destination',
          type = Some suggestionType,
          source = AI,
          relevanceScore = calculateRelevanceScore (Some origin') (Some destination') query,
          description =
            Some (if truthy (s_description s) then orEmpty (s_description s)
                  else ''Eco-friendly '' @ (if isRoute then ''route'' else ''destination''))\<rparr>)"

text \<open>Reading a property of a \<open>null\<close> element throws; the adapter's \<open>catch\<close> then answers
  the empty list.\<close>

definition convert :: "env \<Rightarrow> string \<Rightarrow> ai_item option list \<Rightarrow> Suggestion list" where
  "convert e query suggestions' =
     (case those (take 8 suggestions') of
        None \<Rightarrow> []
      | Some items \<Rightarrow> map (to_suggestion e query) (enumerate 0 items))"

definition getAISuggestions :: "env \<Rightarrow> string \<Rightarrow> Suggestion list" where
  "getAISuggestions e query =
     (if \<not> truthy (OPENAI_API_KEY e) \<or> OPENAI_API_KEY e = Some ''sk-placeholder''
      then [\<lparr>sug_id = ''ai:1'',
              label = query @ '' '' @ arrow @ '' Boston (train)'',
              origin = Some query,
              destination = Some ''Boston'',
              type = None,
              source = AI,
              relevanceScore = 30,
              description = None\<rparr>,
            \<lparr>sug_id = ''ai:2'',
              label = query @ '' '' @ arrow @ '' New York (bus)'',
              origin = Some query,
              destination = Some ''New York'',
              type = None,
              source = AI,
              relevanceScore = 30,
              description = None\<rparr>]
      else
        case chat_completion e query of
          Inl error \<Rightarrow> []
        | Inr NotJson \<Rightarrow> []
        | Inr JsonNull \<Rightarrow> []
        | Inr (JsonValue suggestions' routes destinations) \<Rightarrow>
            (case suggestions' of
               Some items \<Rightarrow> convert e query items
             | None \<Rightarrow>
                 (case routes of
                    Some rs \<Rightarrow>
                      (case those rs of
                         None \<Rightarrow> []
                       | Some rs' \<Rightarrow> convert e query (map (Some \<circ> from_route) rs'))
                  | None \<Rightarrow>
                      (case destinations of
                         Some ds \<Rightarrow>
                           (case those ds of
                              None \<Rightarrow> []
                            | Some ds' \<Rightarrow> convert e query (map (Some \<circ> from_destination) ds'))
                       | None \<Rightarrow> []))))"

definition getStaticSuggestions :: "string \<Rightarrow> Suggestion list" where
  "getStaticSuggestions query =
     (let q = trim query
      in if q = [] \<or> length q < 1 then []
         else map (\<lambda>location.
                     \<lparr>sug_id = ''static-'' @ loc_id location,
                      label = name location,
                      origin = Some (name location),
                      destination = Some (name location),
                      type = Some (loc_type location),
                      source = Static,
                      relevanceScore =
                        calculateRelevanceScore (Some (name location)) (Some (name location)) q + 10,
                      description = None\<rparr>)
                  (filterUSLocations q 10))"

section \<open>The request handler\<close>

record request =
  param_q :: "string option"
  x_forwarded_for :: "string option"
  x_real_ip :: "string option"

definition getClientIP :: "request \<Rightarrow> string" where
  "getClientIP req =
     (let forwarded = x_forwarded_for req;
          realIP = x_real_ip req;
          first = (case forwarded of None \<Rightarrow> None
                   | Some f \<Rightarrow> Some (takeWhile (\<lambda>c. c \<noteq> CHR '','') f))
      in orEmpty (or_else (or_else first realIP) (Some ''unknown'')))"

record Formatted =
  f_id :: string
  f_label :: string
  f_origin :: "string option"
  f_destination :: "string option"
  f_type :: stype
  f_description :: "string option"

datatype body =
    SuggestionsBody (suggestions: "Formatted list") (rateLimited: bool)
  | ErrorBody string

record response =
  status :: nat
  body :: body

text \<open>\<open>x || undefined\<close> on an optional string.\<close>

definition or_undefined :: "string option \<Rightarrow> string option" where
  "or_undefined x = (if truthy x then x else None)"

definition format_limited :: "Suggestion \<Rightarrow> Formatted" where
  "format_limited s =
     \<lparr>f_id = sug_id s,
      f_label = label s,
      f_origin = or_undefined (origin s),
      f_destination = or_undefined (destination s),
      f_type = (case type s of Some t \<Rightarrow> t | None \<Rightarrow> Destination),
      f_description = None\<rparr>"

definition format_suggestion :: "Suggestion \<Rightarrow> Formatted" where
  "format_suggestion s =
     (let isRoute = (truthy (origin s) \<and> truthy (destination s) \<and> origin s \<noteq> destination s);
          suggestionType = (case type s of
                              Some t \<Rightarrow> t
                            | None \<Rightarrow> if isRoute then Route else Destination)
      in \<lparr>f_id = sug_id s,
          f_label = label s,
          f_origin = or_undefined (origin s),
          f_destination = or_undefined (destination s),
          f_type = suggestionType,
          f_description = or_undefined (description s)\<rparr>)"

definition relevance_order :: "Suggestion \<Rightarrow> Suggestion \<Rightarrow> int" where
  "relevance_order a b =
     (if relevanceScore a \<noteq> relevanceScore b then relevanceScore b - relevanceScore a
      else
        let aPriority = sourcePriority (source a);
            bPriority = sourcePriority (source b)
        in if aPriority \<noteq> bPriority then int bPriority - int aPriority else 0)"

text \<open>The list handed to the deduplicator: gazetteer, then history, then generative
  suggestions; the last two only for a query of two characters or more.\<close>

definition allSuggestions :: "env \<Rightarrow> string \<Rightarrow> Suggestion list" where
  "allSuggestions e q =
     (let staticSuggestions = getStaticSuggestions q;
          shouldFetchAI = (length q \<ge> 2);
          dbSuggestions = (if shouldFetchAI then getDatabaseSuggestions e q else []);
          aiSuggestions = (if shouldFetchAI then getAISuggestions e q else [])
      in staticSuggestions @ dbSuggestions @ aiSuggestions)"

text \<open>
  The body of the handler's \<open>try\<close> block. The limiter is consulted, and its map changed,
  only for a query of two characters or more. No call in the block throws: each source
  catches its own failures.
\<close>

definition GET_try ::
  "env \<Rightarrow> int \<Rightarrow> request \<Rightarrow> rateLimitMap \<Rightarrow> (js_error + response) \<times> rateLimitMap" where
  "GET_try e now req m =
     (let q = trim (orEmpty (param_q req))
      in if q = [] \<or> length q < 1
         then (Inr \<lparr>status = 200, body = SuggestionsBody [] False\<rparr>, m)
         else
           let ip = getClientIP req;
               shouldFetchAI = (length q \<ge> 2);
               (admitted, m') = (if shouldFetchAI then checkRateLimit now ip m else (True, m))
           in if shouldFetchAI \<and> \<not> admitted
              then (Inr \<lparr>status = 200,
                         body = SuggestionsBody (map format_limited (getStaticSuggestions q)) True\<rparr>,
                    m')
              else
                let deduplicated = deduplicateSuggestions (allSuggestions e q);
                    sorted = array_sort relevance_order deduplicated
                in (Inr \<lparr>status = 200,
                         body = SuggestionsBody (map format_suggestion sorted) False\<rparr>,
                    m'))"

text \<open>The handler with its \<open>catch\<close> clause.\<close>

definition GET :: "env \<Rightarrow> int \<Rightarrow> request \<Rightarrow> rateLimitMap \<Rightarrow> response \<times> rateLimitMap" where
  "GET e now req m =
     (case GET_try e now req m of
        (Inr r, m') \<Rightarrow> (r, m')
      | (Inl error, m') \<Rightarrow>
          if err_status error = Some 429
          then (\<lparr>status = 503,
                 body = ErrorBody ''AI service rate limit exceeded. Please try again in a moment.''\<rparr>,
                m')
          else if err_status error = Some 401
          then (\<lparr>status = 503,
                 body = ErrorBody ''AI service authentication failed. Please check configuration.''\<rparr>,
                m')
          else (\<lparr>status = 200, body = SuggestionsBody [] False\<rparr>, m'))"

section \<open>Example inputs\<close>

text \<open>Three candidates for one place, from the three sources, with equal scores.\<close>

definition dup_static :: Suggestion where
  "dup_static = \<lparr>sug_id = ''static-city-20'', label = ''Boston'', origin = Some ''Boston'',
      destination = Some ''Boston'', type = Some City, source = Static, relevanceScore = 70,
      description = None\<rparr>"

definition dup_db :: Suggestion where
  "dup_db = \<lparr>sug_id = ''db:17'', label = ''boston  BOSTON'', origin = Some ''boston'',
      destination = Some ''BOSTON '', type = Some Route, source = Database, relevanceScore = 70,
      description = None\<rparr>"

definition dup_ai :: Suggestion where
  "dup_ai = \<lparr>sug_id = ''ai:0-x'', label = ''Boston'', origin = Some ''Boston'',
      destination = Some ''Boston'', type = Some Route, source = AI, relevanceScore = 70,
      description = Some ''Eco-friendly route''\<rparr>"

text \<open>A deployment without provider credential and with an empty trip store; one whose
  store and provider both fail; a request for a query; the gazetteer's answer for the query
  \<open>texas\<close>; a suggestion without origin and destination; a limiter map whose client has used
  its quota.\<close>

definition env_nokey :: env where
  "env_nokey = \<lparr>OPENAI_API_KEY = None, findMany = (\<lambda>q. Inr []),
      chat_completion = (\<lambda>q. Inl (JsError None ''not called'')), nonce = (\<lambda>i. ''0'')\<rparr>"


definition req_of :: "string \<Rightarrow> request" where
  "req_of q = \<lparr>param_q = Some q, x_forwarded_for = Some ''203.0.113.7'', x_real_ip = None\<rparr>"

definition texas_static :: Suggestion where
  "texas_static = \<lparr>sug_id = ''static-state-42'', label = ''Texas'', origin = Some ''Texas'',
      destination = Some ''Texas'', type = Some State, source = Static, relevanceScore = 110,
      description = None\<rparr>"

definition park :: Suggestion where
  "park = \<lparr>sug_id = ''ai:0-x'', label = ''Yosemite'', origin = None, destination = None,
      type = Some Destination, source = AI, relevanceScore = 20,
      description = Some ''Eco-friendly destination''\<rparr>"















section \<open>Evaluation on concrete strings\<close>

lemmas dup_defs = dup_static_def dup_db_def dup_ai_def

lemmas str_eval =
  toLowerCase_def lower_char_def char_of_def bit_0 trim_def is_ws_def orEmpty_def
  startsWith_def includes_str_def sublist_code arrow_def

section \<open>Rate limiter: the quota and the window\<close>

lemma requests_within_window:
  "m ip = Some \<lparr>count = c, resetTime = R\<rparr> \<Longrightarrow> \<forall>t \<in> set ts. t \<le> R \<Longrightarrow>
   c + int (length ts) \<le> N \<Longrightarrow>
   requests W N ip ts m =
     (replicate (length ts) True, m(ip \<mapsto> \<lparr>count = c + int (length ts), resetTime = R\<rparr>))"
proof (induction ts arbitrary: m c)
  case Nil
  then show ?case by (simp add: fun_upd_idem)
next
  case (Cons t ts)
  let ?m' = "m(ip \<mapsto> \<lparr>count = c + 1, resetTime = R\<rparr>)"
  have step: "checkRateLimit_with W N t ip m = (True, ?m')"
    using Cons.prems by (simp add: checkRateLimit_with_def)
  have "requests W N ip ts ?m' =
     (replicate (length ts) True, ?m'(ip \<mapsto> \<lparr>count = (c + 1) + int (length ts), resetTime = R\<rparr>))"
    using Cons.prems by (intro Cons.IH) auto
  with step show ?case by (auto simp: add.assoc fun_upd_def)
qed

lemma fresh_window:
  "m ip = None \<or> (\<exists>r. m ip = Some r \<and> resetTime r < now) \<Longrightarrow>
   checkRateLimit_with W N now ip m = (True, m(ip \<mapsto> \<lparr>count = 1, resetTime = now + W\<rparr>))"
  by (auto simp: checkRateLimit_with_def)

text \<open>
  C8. For a quota \<open>N \<ge> 1\<close> (the routes use 10 and 15) and a window \<open>W\<close>: a request at
  \<open>t0\<close> that finds no record, or one whose window has elapsed, opens a window; it and the
  next \<open>N - 1\<close> requests of the same client up to the reset time \<open>t0 + W\<close> are all admitted
  and leave the counter at \<open>N\<close>. The request after them is denied while the clock has not
  passed the reset time, and the map is left as it was; the first request after the reset
  time is admitted and stores the counter 1 with a window starting at its own arrival.
\<close>

theorem rate_limit_quota_boundary:
  assumes "1 \<le> N"
    and "m ip = None \<or> (\<exists>r. m ip = Some r \<and> resetTime r < t0)"
    and "int (length ts) = N - 1"
    and "\<forall>t \<in> set ts. t \<le> t0 + W"
  shows "requests W N ip (t0 # ts) m =
           (replicate (nat N) True, m(ip \<mapsto> \<lparr>count = N, resetTime = t0 + W\<rparr>))
       \<and> (\<forall>t. t \<le> t0 + W \<longrightarrow>
             checkRateLimit_with W N t ip (m(ip \<mapsto> \<lparr>count = N, resetTime = t0 + W\<rparr>)) =
               (False, m(ip \<mapsto> \<lparr>count = N, resetTime = t0 + W\<rparr>)))
       \<and> (\<forall>t. t > t0 + W \<longrightarrow>
             checkRateLimit_with W N t ip (m(ip \<mapsto> \<lparr>count = N, resetTime = t0 + W\<rparr>)) =
               (True, m(ip \<mapsto> \<lparr>count = 1, resetTime = t + W\<rparr>)))"
proof -
  let ?m1 = "m(ip \<mapsto> \<lparr>count = 1, resetTime = t0 + W\<rparr>)"
  have first: "checkRateLimit_with W N t0 ip m = (True, ?m1)"
    using assms(2) by (rule fresh_window)
  have rest: "requests W N ip ts ?m1 =
     (replicate (length ts) True, ?m1(ip \<mapsto> \<lparr>count = 1 + int (length ts), resetTime = t0 + W\<rparr>))"
    using assms by (intro requests_within_window) auto
  have len: "Suc (length ts) = nat N" using assms(1,3) by linarith
  have run: "requests W N ip (t0 # ts) m =
           (replicate (nat N) True, m(ip \<mapsto> \<lparr>count = N, resetTime = t0 + W\<rparr>))"
    using first rest assms(3) len[symmetric] by simp
  show ?thesis using run by (simp add: checkRateLimit_with_def)
qed

theorem rate_limit_quota_boundary_witness:
  "requests RATE_LIMIT_WINDOW RATE_LIMIT_MAX_REQUESTS ''1.2.3.4''
      [1000, 1001, 1002, 1003, 1004, 1005, 1006, 1007, 1008, 61000] Map.empty =
     (replicate 10 True, [''1.2.3.4'' \<mapsto> \<lparr>count = 10, resetTime = 61000\<rparr>])
   \<and> fst (checkRateLimit 61000 ''1.2.3.4'' [''1.2.3.4'' \<mapsto> \<lparr>count = 10, resetTime = 61000\<rparr>]) = False
   \<and> checkRateLimit 61001 ''1.2.3.4'' [''1.2.3.4'' \<mapsto> \<lparr>count = 10, resetTime = 61000\<rparr>] =
       (True, [''1.2.3.4'' \<mapsto> \<lparr>count = 1, resetTime = 121001\<rparr>])"
  using rate_limit_quota_boundary [of 10 Map.empty "''1.2.3.4''" 1000
      "[1001, 1002, 1003, 1004, 1005, 1006, 1007, 1008, 61000]" 60000]
  by (simp add: RATE_LIMIT_WINDOW_def RATE_LIMIT_MAX_REQUESTS_def checkRateLimit_def)

text \<open>
  C10. A request that arrives exactly at the stored reset time, or before it, is counted
  against the stored counter: denied, the map unchanged, when the counter has reached the
  quota of 10, admitted with the counter raised by one and the reset time kept otherwise.
  Only a request whose arrival time is greater than the reset time starts a window, with the
  counter 1 and the reset time 60000 ms after the arrival.
\<close>

theorem reset_time_is_inside_window:
  assumes "m ip = Some r"
  shows "checkRateLimit (resetTime r) ip m =
           (if count r \<ge> RATE_LIMIT_MAX_REQUESTS then (False, m)
            else (True, m(ip \<mapsto> r\<lparr>count := count r + 1\<rparr>)))
       \<and> (\<forall>now. now \<le> resetTime r \<longrightarrow>
             checkRateLimit now ip m =
               (if count r \<ge> RATE_LIMIT_MAX_REQUESTS then (False, m)
                else (True, m(ip \<mapsto> r\<lparr>count := count r + 1\<rparr>))))
       \<and> (\<forall>now. now > resetTime r \<longrightarrow>
             checkRateLimit now ip m =
               (True, m(ip \<mapsto> \<lparr>count = 1, resetTime = now + 60000\<rparr>)))"
  using assms
  by (simp add: checkRateLimit_def checkRateLimit_with_def RATE_LIMIT_WINDOW_def)

theorem reset_time_is_inside_window_witness:
  "checkRateLimit 5000 ''1.2.3.4'' [''1.2.3.4'' \<mapsto> \<lparr>count = 10, resetTime = 5000\<rparr>] =
     (False, [''1.2.3.4'' \<mapsto> \<lparr>count = 10, resetTime = 5000\<rparr>])
   \<and> checkRateLimit 5000 ''1.2.3.4'' [''1.2.3.4'' \<mapsto> \<lparr>count = 3, resetTime = 5000\<rparr>] =
     (True, [''1.2.3.4'' \<mapsto> \<lparr>count = 4, resetTime = 5000\<rparr>])
   \<and> checkRateLimit 5001 ''1.2.3.4'' [''1.2.3.4'' \<mapsto> \<lparr>count = 10, resetTime = 5000\<rparr>] =
     (True, [''1.2.3.4'' \<mapsto> \<lparr>count = 1, resetTime = 65001\<rparr>])"
  using reset_time_is_inside_window
          [of "[''1.2.3.4'' \<mapsto> \<lparr>count = 10, resetTime = 5000\<rparr>]" "''1.2.3.4''"
              "\<lparr>count = 10, resetTime = 5000\<rparr>"]
        reset_time_is_inside_window
          [of "[''1.2.3.4'' \<mapsto> \<lparr>count = 3, resetTime = 5000\<rparr>]" "''1.2.3.4''"
              "\<lparr>count = 3, resetTime = 5000\<rparr>"]
  by (simp add: RATE_LIMIT_MAX_REQUESTS_def)

section \<open>Deduplicator\<close>

lemma dedup_step_alt:
  "dedup_step seen sug =
     (case map_of seen (routeKey sug) of
        None \<Rightarrow> map_set (routeKey sug) sug seen
      | Some e \<Rightarrow> if outranks sug e then map_set (routeKey sug) sug seen else seen)"
  by (auto simp: dedup_step_def routeKey_def outranks_def Let_def split: option.splits)

lemma map_of_map_set: "map_of (map_set k v kvs) k' = (if k' = k then Some v else map_of kvs k')"
  by (induction kvs) auto

lemma map_fst_map_set:
  "map fst (map_set k v kvs) = (if k \<in> fst ` set kvs then map fst kvs else map fst kvs @ [k])"
  by (induction kvs) force+

lemma set_map_set: "set (map_set k v kvs) \<subseteq> insert (k, v) (set kvs)"
  by (induction kvs) (auto split: if_splits)

lemma keyed_map_set: "keyed S \<Longrightarrow> keyed (map_set (routeKey v) v S)"
  unfolding keyed_def using set_map_set[of "routeKey v" v S]
  by (auto simp: map_fst_map_set)

lemma keyed_dedup_step: "keyed S \<Longrightarrow> keyed (dedup_step S x)"
  by (simp add: dedup_step_alt keyed_map_set split: option.splits)

lemma keyed_foldl: "keyed S \<Longrightarrow> keyed (foldl dedup_step S L)"
  by (induction L arbitrary: S) (simp_all add: keyed_dedup_step)

lemma keyed_Nil: "keyed []"
  by (simp add: keyed_def)

lemma map_of_dedup_step:
  "map_of (dedup_step S x) k =
     (if routeKey x = k
      then (case map_of S k of None \<Rightarrow> Some x
            | Some e \<Rightarrow> Some (if outranks x e then x else e))
      else map_of S k)"
  by (auto simp: dedup_step_alt map_of_map_set split: option.splits)

lemma map_of_foldl:
  "map_of (foldl dedup_step S L) k =
     (case map_of S k of
        None \<Rightarrow> (case filter (\<lambda>s. routeKey s = k) L of [] \<Rightarrow> None | g # gs \<Rightarrow> Some (best g gs))
      | Some e \<Rightarrow> Some (best e (filter (\<lambda>s. routeKey s = k) L)))"
proof (induction L arbitrary: S)
  case Nil
  then show ?case by (simp split: option.splits)
next
  case (Cons x L)
  show ?case
    by (simp add: Cons.IH map_of_dedup_step split: option.splits)
qed

lemma outranks_trans: "outranks a b \<Longrightarrow> outranks b c \<Longrightarrow> outranks a c"
  by (auto simp: outranks_def)

lemma outranks_over: "outranks a b \<Longrightarrow> \<not> outranks c b \<Longrightarrow> outranks a c"
  by (auto simp: outranks_def)

lemma outranks_asym: "outranks a b \<Longrightarrow> \<not> outranks b a"
  by (auto simp: outranks_def)

lemma best_split_gen:
  "\<forall>h \<in> set pre0. outranks w h \<Longrightarrow> \<forall>h \<in> set post0. \<not> outranks h w \<Longrightarrow>
   \<exists>pre post. pre0 @ w # post0 @ gs = pre @ best w gs # post \<and>
      (\<forall>h \<in> set pre. outranks (best w gs) h) \<and> (\<forall>h \<in> set post. \<not> outranks h (best w gs))"
proof (induction gs arbitrary: w pre0 post0)
  case Nil
  then show ?case by auto
next
  case (Cons s ss)
  show ?case
  proof (cases "outranks s w")
    case True
    have a: "\<forall>h \<in> set (pre0 @ w # post0). outranks s h"
      using Cons.prems True by (auto intro: outranks_trans outranks_over)
    have "\<exists>pre post. (pre0 @ w # post0) @ s # [] @ ss = pre @ best s ss # post \<and>
      (\<forall>h \<in> set pre. outranks (best s ss) h) \<and> (\<forall>h \<in> set post. \<not> outranks h (best s ss))"
      using a by (intro Cons.IH) auto
    with True show ?thesis by simp
  next
    case False
    have "\<exists>pre post. pre0 @ w # (post0 @ [s]) @ ss = pre @ best w ss # post \<and>
      (\<forall>h \<in> set pre. outranks (best w ss) h) \<and> (\<forall>h \<in> set post. \<not> outranks h (best w ss))"
      using Cons.prems False by (intro Cons.IH) auto
    with False show ?thesis by simp
  qed
qed

lemma best_split:
  "\<exists>pre post. g # gs = pre @ best g gs # post \<and>
      (\<forall>h \<in> set pre. outranks (best g gs) h) \<and> (\<forall>h \<in> set post. \<not> outranks h (best g gs))"
  using best_split_gen[of "[]" g "[]" gs] by simp

lemma best_not_outranked: "h \<in> set (g # gs) \<Longrightarrow> \<not> outranks h (best g gs)"
proof -
  assume h: "h \<in> set (g # gs)"
  obtain pre post where s: "g # gs = pre @ best g gs # post"
    and p: "\<forall>h \<in> set pre. outranks (best g gs) h"
    and q: "\<forall>h \<in> set post. \<not> outranks h (best g gs)"
    using best_split by blast
  from h s have "h \<in> set pre \<or> h = best g gs \<or> h \<in> set post"
    by (metis Un_iff set_ConsD set_append)
  then show ?thesis using p q outranks_asym by blast
qed

lemma filter_keyed:
  "keyed S \<Longrightarrow>
   filter (\<lambda>s. routeKey s = k) (map snd S) = (case map_of S k of None \<Rightarrow> [] | Some v \<Rightarrow> [v])"
proof (induction S)
  case Nil
  then show ?case by simp
next
  case (Cons kv S)
  obtain k' v' where kv: "kv = (k', v')" by (cases kv)
  from Cons.prems have ks: "keyed S" and key: "routeKey v' = k'" and fresh: "k' \<notin> fst ` set S"
    by (auto simp: keyed_def kv)
  have none: "map_of S k' = None" using fresh by (simp add: map_of_eq_None_iff)
  show ?case using Cons.IH[OF ks] key none by (auto simp: kv)
qed

lemma foldl_fixed:
  "\<forall>s \<in> set L. \<exists>e. map_of S (routeKey s) = Some e \<and> \<not> outranks s e \<Longrightarrow>
   foldl dedup_step S L = S"
proof (induction L)
  case Nil
  then show ?case by simp
next
  case (Cons x L)
  have "dedup_step S x = S" using Cons.prems by (auto simp: dedup_step_alt)
  with Cons show ?case by simp
qed

lemma foldl_winner:
  assumes "s \<in> set L"
  shows "\<exists>e. map_of (foldl dedup_step [] L) (routeKey s) = Some e \<and> \<not> outranks s e"
proof -
  have "s \<in> set (filter (\<lambda>x. routeKey x = routeKey s) L)" using assms by simp
  then obtain g gs where G: "filter (\<lambda>x. routeKey x = routeKey s) L = g # gs"
    and s: "s \<in> set (g # gs)"
    by (cases "filter (\<lambda>x. routeKey x = routeKey s) L") auto
  have "map_of (foldl dedup_step [] L) (routeKey s) = Some (best g gs)"
    by (simp add: map_of_foldl G)
  with best_not_outranked[OF s] show ?thesis by simp
qed

text \<open>
  C4. Take any candidate list and any candidate \<open>s\<close> in it; the group of \<open>s\<close> is the
  candidates with the identity key of \<open>s\<close>, in input order. The deduplicator's output has
  exactly one candidate with that key. It is a member \<open>w\<close> of the group that outranks every
  member before it and is outranked by no member after it: the first of the members that are
  greatest by source priority (static over database over ai) and then by score. A candidate
  that a member of its own group outranks is not in the output; so of two candidates with one
  key and equal scores the static one is kept over the database one, and the database one
  over the ai one.
\<close>

theorem dedup_keeps_first_best:
  assumes "s \<in> set L"
  shows "(\<exists>pre w post.
           filter (\<lambda>x. routeKey x = routeKey s) L = pre @ w # post \<and>
           filter (\<lambda>x. routeKey x = routeKey s) (deduplicateSuggestions L) = [w] \<and>
           (\<forall>h \<in> set pre. outranks w h) \<and> (\<forall>h \<in> set post. \<not> outranks h w))
       \<and> (\<forall>a \<in> set L. routeKey a = routeKey s \<and> outranks a s \<longrightarrow>
             s \<notin> set (deduplicateSuggestions L))"
proof -
  let ?G = "filter (\<lambda>x. routeKey x = routeKey s) L"
  have sG: "s \<in> set ?G" using assms by simp
  then obtain g gs where G: "?G = g # gs" by (cases ?G) auto
  have m: "map_of (foldl dedup_step [] L) (routeKey s) = Some (best g gs)"
    by (simp add: map_of_foldl G)
  have f: "filter (\<lambda>x. routeKey x = routeKey s) (deduplicateSuggestions L) = [best g gs]"
    unfolding deduplicateSuggestions_def
    by (simp add: filter_keyed[OF keyed_foldl[OF keyed_Nil]] m)
  have first: "\<exists>pre w post. ?G = pre @ w # post \<and>
           filter (\<lambda>x. routeKey x = routeKey s) (deduplicateSuggestions L) = [w] \<and>
           (\<forall>h \<in> set pre. outranks w h) \<and> (\<forall>h \<in> set post. \<not> outranks h w)"
    using best_split[of g gs] f G by metis
  have second: "s \<notin> set (deduplicateSuggestions L)"
    if a: "a \<in> set L" "routeKey a = routeKey s" "outranks a s" for a
  proof
    assume "s \<in> set (deduplicateSuggestions L)"
    then have "s \<in> set (filter (\<lambda>x. routeKey x = routeKey s) (deduplicateSuggestions L))"
      by simp
    then have "s = best g gs" by (simp add: f)
    moreover have "a \<in> set (g # gs)" using a G[symmetric] by simp
    ultimately show False using best_not_outranked a(3) by blast
  qed
  show ?thesis using first second by blast
qed

theorem dedup_keeps_first_best_witness:
  "dup_db \<in> set [dup_ai, dup_db, dup_static]
   \<and> routeKey dup_static = routeKey dup_db \<and> outranks dup_static dup_db
   \<and> dup_db \<notin> set (deduplicateSuggestions [dup_ai, dup_db, dup_static])
   \<and> deduplicateSuggestions [dup_ai, dup_db, dup_static] = [dup_static]"
proof -
  have h: "dup_db \<in> set [dup_ai, dup_db, dup_static]" by simp
  have k: "routeKey dup_static = routeKey dup_db"
    by (simp add: dup_defs routeKey_def normalizeRoute_def str_eval)
  have k2: "routeKey dup_ai = routeKey dup_db"
    by (simp add: dup_defs routeKey_def normalizeRoute_def str_eval)
  have o: "outranks dup_static dup_db" by (simp add: dup_defs outranks_def)
  have o2: "outranks dup_db dup_ai" by (simp add: dup_defs outranks_def)
  have gone: "dup_db \<notin> set (deduplicateSuggestions [dup_ai, dup_db, dup_static])"
    using dedup_keeps_first_best[OF h] k o by simp
  have "deduplicateSuggestions [dup_ai, dup_db, dup_static] = [dup_static]"
    using k k2 o o2
    by (simp add: deduplicateSuggestions_def dedup_step_alt)
  with h k o gone show ?thesis by simp
qed

text \<open>
  C7. Deduplicating a list followed by itself gives what deduplicating the list gives, the
  same candidates in the same order.
\<close>

theorem dedup_append_self: "deduplicateSuggestions (L @ L) = deduplicateSuggestions L"
proof -
  have "foldl dedup_step (foldl dedup_step [] L) L = foldl dedup_step [] L"
    by (rule foldl_fixed) (simp add: foldl_winner)
  then show ?thesis by (simp add: deduplicateSuggestions_def)
qed

section \<open>Relevance scorer\<close>



lemma wordsOf_Nil: "wordsOf [] = []"
  by (simp add: wordsOf.simps)

lemma wordsOf_ws: "is_ws c \<Longrightarrow> wordsOf (c # cs) = wordsOf cs"
  by (subst wordsOf.simps, subst (2) wordsOf.simps) simp

lemma wordsOf_dropWhile: "wordsOf (dropWhile is_ws s) = wordsOf s"
  by (induction s) (simp_all add: wordsOf_ws)

lemma wordsOf_nonws:
  "\<not> is_ws c \<Longrightarrow>
   wordsOf (c # cs) = (c # takeWhile (\<lambda>x. \<not> is_ws x) cs) # wordsOf (dropWhile (\<lambda>x. \<not> is_ws x) cs)"
  by (subst wordsOf.simps) simp

lemma split_ws_nonempty: "split_ws s \<noteq> []"
  by (induction s rule: split_ws.induct) (auto split: list.splits)

lemma split_ws_shape:
  "hd (split_ws s) = takeWhile (\<lambda>x. \<not> is_ws x) s \<and>
   filter (\<lambda>w. w \<noteq> []) (tl (split_ws s)) = wordsOf (dropWhile (\<lambda>x. \<not> is_ws x) s)"
proof (induction s rule: split_ws.induct)
  case 1
  show ?case by (simp add: wordsOf_Nil)
next
  case (2 c cs)
  show ?case
  proof (cases "is_ws c")
    case True
    let ?t = "dropWhile is_ws cs"
    let ?X = "split_ws ?t"
    from 2(1)[OF True] have hdX: "hd ?X = takeWhile (\<lambda>x. \<not> is_ws x) ?t"
      and tlX: "filter (\<lambda>w. w \<noteq> []) (tl ?X) = wordsOf (dropWhile (\<lambda>x. \<not> is_ws x) ?t)"
      by simp_all
    have X: "?X = hd ?X # tl ?X" using split_ws_nonempty[of ?t] by simp
    have "filter (\<lambda>w. w \<noteq> []) ?X = wordsOf ?t"
    proof (cases ?t)
      case Nil
      show ?thesis unfolding Nil by (simp add: wordsOf_Nil)
    next
      case (Cons d ds)
      have nd: "\<not> is_ws d" using Cons hd_dropWhile[of is_ws cs] by (metis list.sel(1) list.distinct(1))
      have "filter (\<lambda>w. w \<noteq> []) ?X = filter (\<lambda>w. w \<noteq> []) (hd ?X # tl ?X)" using X by simp
      also have "\<dots> = hd ?X # wordsOf (dropWhile (\<lambda>x. \<not> is_ws x) ?t)"
        using hdX tlX Cons nd by simp
      also have "\<dots> = wordsOf ?t" using Cons nd hdX by (simp add: wordsOf_nonws)
      finally show ?thesis .
    qed
    then show ?thesis using True by (simp add: wordsOf_ws wordsOf_dropWhile)
  next
    case False
    let ?Y = "split_ws cs"
    from 2(2)[OF False] have hdY: "hd ?Y = takeWhile (\<lambda>x. \<not> is_ws x) cs"
      and tlY: "filter (\<lambda>w. w \<noteq> []) (tl ?Y) = wordsOf (dropWhile (\<lambda>x. \<not> is_ws x) cs)"
      by simp_all
    obtain w ws where Y: "?Y = w # ws" using split_ws_nonempty[of cs] by (cases ?Y) auto
    show ?thesis using False hdY tlY Y by simp
  qed
qed

lemma filter_split_ws: "filter (\<lambda>w. w \<noteq> []) (split_ws s) = wordsOf s"
proof (cases s)
  case Nil
  then show ?thesis by (simp add: wordsOf_Nil)
next
  case (Cons c cs)
  have X: "split_ws s = hd (split_ws s) # tl (split_ws s)" using split_ws_nonempty[of s] by simp
  have "filter (\<lambda>w. w \<noteq> []) (split_ws s) =
        filter (\<lambda>w. w \<noteq> []) (hd (split_ws s) # tl (split_ws s))" using X by simp
  also have "\<dots> = wordsOf s"
    using split_ws_shape[of s] Cons by (cases "is_ws c") (simp_all add: wordsOf_nonws wordsOf_ws)
  finally show ?thesis .
qed

lemma set_wordsOf: "set (wordsOf s) = set (split_ws s) - {[]}"
  using filter_split_ws[of s, symmetric] by auto

lemma empty_piece_in_tl:
  "[] \<in> set (tl (split_ws s)) \<longleftrightarrow> s \<noteq> [] \<and> is_ws (last s)"
proof (induction s rule: split_ws.induct)
  case 1
  show ?case by simp
next
  case (2 c cs)
  show ?case
  proof (cases "is_ws c")
    case True
    let ?t = "dropWhile is_ws cs"
    have IH: "[] \<in> set (tl (split_ws ?t)) \<longleftrightarrow> ?t \<noteq> [] \<and> is_ws (last ?t)"
      using 2(1)[OF True] .
    have X: "split_ws ?t = hd (split_ws ?t) # tl (split_ws ?t)"
      using split_ws_nonempty[of ?t] by simp
    have hdX: "hd (split_ws ?t) = takeWhile (\<lambda>x. \<not> is_ws x) ?t"
      using split_ws_shape[of ?t] by simp
    have mem: "[] \<in> set (split_ws ?t) \<longleftrightarrow> hd (split_ws ?t) = [] \<or> [] \<in> set (tl (split_ws ?t))"
      by (subst X) auto
    show ?thesis
    proof (cases ?t)
      case Nil
      then have allws: "\<forall>x \<in> set cs. is_ws x" by (simp add: dropWhile_eq_Nil_conv)
      have "is_ws (last (c # cs))" using True allws by (cases cs) (auto simp: last_in_set)
      moreover have "[] \<in> set (split_ws ?t)" unfolding Nil by simp
      ultimately show ?thesis using True by simp
    next
      case (Cons d ds)
      have nd: "\<not> is_ws d" using Cons hd_dropWhile[of is_ws cs] by (metis list.sel(1) list.distinct(1))
      have hdne: "hd (split_ws ?t) \<noteq> []" using hdX Cons nd by simp
      obtain pre where cs: "cs = pre @ ?t" using takeWhile_dropWhile_id[of is_ws cs, symmetric] by blast
      have "last (c # cs) = last ?t" using cs Cons by (metis last_ConsR last_appendR list.distinct(1) append_is_Nil_conv)
      then show ?thesis using True mem hdne IH Cons by simp
    qed
  next
    case False
    have IH: "[] \<in> set (tl (split_ws cs)) \<longleftrightarrow> cs \<noteq> [] \<and> is_ws (last cs)"
      using 2(2)[OF False] .
    obtain w ws where Y: "split_ws cs = w # ws" using split_ws_nonempty[of cs] by (cases "split_ws cs") auto
    show ?thesis using False IH Y by auto
  qed
qed

lemma empty_piece:
  "[] \<in> set (split_ws s) \<longleftrightarrow> s = [] \<or> is_ws (hd s) \<or> is_ws (last s)"
proof -
  have X: "split_ws s = hd (split_ws s) # tl (split_ws s)"
    using split_ws_nonempty[of s] by simp
  have "[] \<in> set (split_ws s) \<longleftrightarrow> hd (split_ws s) = [] \<or> [] \<in> set (tl (split_ws s))"
    by (subst X) auto
  also have "\<dots> \<longleftrightarrow> takeWhile (\<lambda>x. \<not> is_ws x) s = [] \<or> (s \<noteq> [] \<and> is_ws (last s))"
    using split_ws_shape[of s] empty_piece_in_tl[of s] by simp
  also have "\<dots> \<longleftrightarrow> s = [] \<or> is_ws (hd s) \<or> is_ws (last s)"
    by (cases s) auto
  finally show ?thesis .
qed

lemma trim_ends:
  assumes "trim x \<noteq> []"
  shows "\<not> is_ws (hd (trim x))" and "\<not> is_ws (last (trim x))"
proof -
  let ?y = "dropWhile is_ws x"
  let ?z = "dropWhile is_ws (rev ?y)"
  have z: "?z \<noteq> []" using assms by (simp add: trim_def)
  have "\<not> is_ws (hd ?z)" using z hd_dropWhile by blast
  then show "\<not> is_ws (last (trim x))" using z by (simp add: trim_def last_rev)
  have y: "?y \<noteq> []"
  proof
    assume e: "?y = []"
    have "?z = []" unfolding e by simp
    with z show False by simp
  qed
  obtain pre where "rev ?y = pre @ ?z" using takeWhile_dropWhile_id[of is_ws "rev ?y", symmetric] by blast
  then have "last ?z = last (rev ?y)" using z by (metis last_appendR)
  also have "\<dots> = hd ?y" using y by (simp add: last_rev)
  finally have "hd (trim x) = hd ?y" using z by (simp add: trim_def hd_rev)
  moreover have "\<not> is_ws (hd ?y)" using y hd_dropWhile by blast
  ultimately show "\<not> is_ws (hd (trim x))" by simp
qed

lemma split_ws_trim: "trim x \<noteq> [] \<Longrightarrow> split_ws (trim x) = wordsOf (trim x)"
proof -
  assume a: "trim x \<noteq> []"
  have "[] \<notin> set (split_ws (trim x))" using a trim_ends[OF a] by (simp add: empty_piece)
  then have "filter (\<lambda>w. w \<noteq> []) (split_ws (trim x)) = split_ws (trim x)"
    by (simp add: filter_id_conv) metis
  then show ?thesis by (simp add: filter_split_ws)
qed

lemma word_match_pieces:
  "qw \<noteq> [] \<Longrightarrow> list_ex (\<lambda>ow. startsWith ow qw) (split_ws s) \<longleftrightarrow> (\<exists>w \<in> set (wordsOf s). prefix qw w)"
  by (auto simp: list_ex_iff startsWith_def set_wordsOf)

lemma wordsOf_nonempty: "w \<in> set (wordsOf s) \<Longrightarrow> w \<noteq> []"
  by (simp add: set_wordsOf)

text \<open>
  C3 (as the code has it). The scorer lower-cases the query and trims it; it lower-cases the
  candidate's origin and destination without trimming them, a missing field counting as the
  empty string. On these it returns the value of the first tier that matches, from the top:
  100 if the query equals origin or destination; else 80 if the query is a prefix of one of
  them; else 60 if one of them contains the query; else 40 if some word of the query is a
  prefix of some word of origin or destination; else 20. Being a function of its arguments,
  it yields the same score for the same query and candidate.
\<close>

theorem relevance_score_tiers:
  "calculateRelevanceScore orig dest query =
     (let q = trim (toLowerCase query);
          o' = toLowerCase (orEmpty orig);
          d = toLowerCase (orEmpty dest)
      in if o' = q \<or> d = q then 100
         else if prefix q o' \<or> prefix q d then 80
         else if sublist q o' \<or> sublist q d then 60
         else if (\<exists>qw \<in> set (wordsOf q). \<exists>w \<in> set (wordsOf o') \<union> set (wordsOf d). prefix qw w)
         then 40 else 20)"
proof -
  let ?q = "trim (toLowerCase query)"
  let ?o = "toLowerCase (orEmpty orig)"
  let ?d = "toLowerCase (orEmpty dest)"
  have words: "list_ex (\<lambda>qw. list_ex (\<lambda>ow. startsWith ow qw) (split_ws ?o) \<or>
                              list_ex (\<lambda>dw. startsWith dw qw) (split_ws ?d)) (split_ws ?q)
     \<longleftrightarrow> (\<exists>qw \<in> set (wordsOf ?q). \<exists>w \<in> set (wordsOf ?o) \<union> set (wordsOf ?d). prefix qw w)"
    if ne: "?q \<noteq> []"
  proof -
    have eq: "split_ws ?q = wordsOf ?q" using ne by (rule split_ws_trim)
    have inner: "(list_ex (\<lambda>ow. startsWith ow qw) (split_ws ?o) \<or>
                  list_ex (\<lambda>dw. startsWith dw qw) (split_ws ?d))
       \<longleftrightarrow> (\<exists>w \<in> set (wordsOf ?o) \<union> set (wordsOf ?d). prefix qw w)"
      if "qw \<in> set (wordsOf ?q)" for qw
    proof -
      have n: "qw \<noteq> []" using that by (rule wordsOf_nonempty)
      show ?thesis unfolding word_match_pieces[OF n] by blast
    qed
    show ?thesis unfolding eq list_ex_iff[of _ "wordsOf ?q"] using inner by blast
  qed
  show ?thesis
  proof (cases "?q = []")
    case True
    then show ?thesis by (simp add: calculateRelevanceScore_def Let_def startsWith_def)
  next
    case False
    show ?thesis
      using words[OF False]
      by (simp add: calculateRelevanceScore_def Let_def startsWith_def includes_str_def)
  qed
qed

text \<open>
  The stated first tier compares trimmed strings. For the origin \<open>Boston\<close> followed by a
  space and the query \<open>boston\<close> the two are equal once lower-cased and trimmed, and the
  scorer answers 80, the prefix tier.
\<close>

theorem relevance_score_counterexample:
  "trim (toLowerCase ''boston'') = trim (toLowerCase ''Boston '')
   \<and> calculateRelevanceScore (Some ''Boston '') None ''boston'' = 80"
  by (simp add: calculateRelevanceScore_def str_eval)

section \<open>The sources and the handler\<close>


lemma texas_locations:
  "filterUSLocations ''texas'' 10 = [\<lparr>loc_id = ''state-42'', name = ''Texas'', loc_type = State\<rparr>]"
  by code_simp

lemma static_texas: "getStaticSuggestions ''texas'' = [texas_static]"
  by (simp add: getStaticSuggestions_def texas_locations calculateRelevanceScore_def
        texas_static_def str_eval)

lemma calc_range: "calculateRelevanceScore a b q \<in> {20, 40, 60, 80, 100}"
  by (simp add: calculateRelevanceScore_def Let_def)

lemma set_insert_sorted: "set (insert_sorted cmp x xs) = insert x (set xs)"
  by (induction xs) auto

lemma set_array_sort: "set (array_sort cmp xs) = set xs"
  by (induction xs) (simp_all add: array_sort_def set_insert_sorted)

lemma length_insert_sorted: "length (insert_sorted cmp x xs) = Suc (length xs)"
  by (induction xs) auto

lemma length_array_sort: "length (array_sort cmp xs) = length xs"
  by (induction xs) (simp_all add: array_sort_def length_insert_sorted)

lemma gazetteer_types: "l \<in> set getAllUSLocations \<Longrightarrow> loc_type l = State \<or> loc_type l = City"
  by (auto simp: getAllUSLocations_def)

lemma filterUSLocations_subset: "set (filterUSLocations q n) \<subseteq> set getAllUSLocations"
proof -
  have "set (take n (array_sort cmp (filter P getAllUSLocations))) \<subseteq> set getAllUSLocations"
    for cmp P
    using set_take_subset[of n "array_sort cmp (filter P getAllUSLocations)"]
    by (auto simp: set_array_sort)
  then show ?thesis by (simp add: filterUSLocations_def Let_def)
qed

lemma static_members:
  assumes "s \<in> set (getStaticSuggestions q)"
  shows "\<exists>location \<in> set getAllUSLocations.
           s = \<lparr>sug_id = ''static-'' @ loc_id location, label = name location,
                 origin = Some (name location), destination = Some (name location),
                 type = Some (loc_type location), source = Static,
                 relevanceScore =
                   calculateRelevanceScore (Some (name location)) (Some (name location)) (trim q) + 10,
                 description = None\<rparr>"
proof -
  from assms obtain location where l: "location \<in> set (filterUSLocations (trim q) 10)"
    and s: "s = \<lparr>sug_id = ''static-'' @ loc_id location, label = name location,
                 origin = Some (name location), destination = Some (name location),
                 type = Some (loc_type location), source = Static,
                 relevanceScore =
                   calculateRelevanceScore (Some (name location)) (Some (name location)) (trim q) + 10,
                 description = None\<rparr>"
    by (auto simp: getStaticSuggestions_def Let_def split: if_splits)
  from l filterUSLocations_subset have "location \<in> set getAllUSLocations" by blast
  with s show ?thesis by blast
qed

lemma static_shape:
  assumes "s \<in> set (getStaticSuggestions q)"
  shows "source s = Static" and "type s = Some State \<or> type s = Some City"
    and "origin s = destination s"
    and "relevanceScore s = calculateRelevanceScore (origin s) (destination s) (trim q) + 10"
proof -
  from static_members[OF assms] obtain location where l: "location \<in> set getAllUSLocations"
    and s: "s = \<lparr>sug_id = ''static-'' @ loc_id location, label = name location,
                 origin = Some (name location), destination = Some (name location),
                 type = Some (loc_type location), source = Static,
                 relevanceScore =
                   calculateRelevanceScore (Some (name location)) (Some (name location)) (trim q) + 10,
                 description = None\<rparr>"
    by blast
  show "source s = Static" by (simp add: s)
  show "type s = Some State \<or> type s = Some City" using gazetteer_types[OF l] by (simp add: s)
  show "origin s = destination s" by (simp add: s)
  show "relevanceScore s = calculateRelevanceScore (origin s) (destination s) (trim q) + 10"
    by (simp add: s)
qed

lemma db_shape:
  assumes "s \<in> set (getDatabaseSuggestions e q)"
  shows "source s = Database" and "type s = Some Route"
    and "relevanceScore s \<in> {20, 40, 60, 80, 100}"
proof -
  show "source s = Database"
    using assms unfolding getDatabaseSuggestions_def Let_def
    by (auto split: if_splits sum.splits)
  show "type s = Some Route"
    using assms unfolding getDatabaseSuggestions_def Let_def
    by (auto split: if_splits sum.splits)
  from assms obtain a b where "relevanceScore s = calculateRelevanceScore a b (trim q)"
    unfolding getDatabaseSuggestions_def Let_def
    by (auto split: if_splits sum.splits)
  then show "relevanceScore s \<in> {20, 40, 60, 80, 100}"
    using calc_range[of a b "trim q"] by simp
qed

lemma to_suggestion_source: "source (to_suggestion e q p) = AI"
  by (simp add: to_suggestion_def Let_def)

lemma to_suggestion_score: "relevanceScore (to_suggestion e q p) \<in> {20, 40, 60, 80, 100}"
proof -
  have "\<exists>a b. relevanceScore (to_suggestion e q p) = calculateRelevanceScore a b q"
    by (simp add: to_suggestion_def Let_def) blast
  then show ?thesis using calc_range by metis
qed

lemma to_suggestion_type:
  "type (to_suggestion e q p) = Some Route \<or> type (to_suggestion e q p) = Some Destination"
  by (simp add: to_suggestion_def Let_def)

lemma to_suggestion_route:
  "type (to_suggestion e q p) = Some Route \<Longrightarrow>
     truthy (origin (to_suggestion e q p)) \<and> truthy (destination (to_suggestion e q p))"
  by (simp add: to_suggestion_def Let_def truthy_def orUndefined_def orEmpty_def split: if_splits)

lemma convert_members:
  "s \<in> set (convert e q items) \<Longrightarrow> \<exists>p. s = to_suggestion e q p"
  by (auto simp: convert_def split: option.splits)

lemma ai_members:
  assumes "s \<in> set (getAISuggestions e q)"
  shows "(\<exists>p. s = to_suggestion e q p) \<or>
         (source s = AI \<and> relevanceScore s = 30 \<and> type s = None)"
proof (cases "\<not> truthy (OPENAI_API_KEY e) \<or> OPENAI_API_KEY e = Some ''sk-placeholder''")
  case True
  then have "getAISuggestions e q =
      [\<lparr>sug_id = ''ai:1'', label = q @ '' '' @ arrow @ '' Boston (train)'', origin = Some q,
        destination = Some ''Boston'', type = None, source = AI, relevanceScore = 30,
        description = None\<rparr>,
       \<lparr>sug_id = ''ai:2'', label = q @ '' '' @ arrow @ '' New York (bus)'', origin = Some q,
        destination = Some ''New York'', type = None, source = AI, relevanceScore = 30,
        description = None\<rparr>]"
    unfolding getAISuggestions_def by (simp only: if_True)
  with assms show ?thesis by auto
next
  case False
  then have eq: "getAISuggestions e q =
     (case chat_completion e q of
          Inl error \<Rightarrow> []
        | Inr NotJson \<Rightarrow> []
        | Inr JsonNull \<Rightarrow> []
        | Inr (JsonValue suggestions' routes destinations) \<Rightarrow>
            (case suggestions' of
               Some items \<Rightarrow> convert e q items
             | None \<Rightarrow>
                 (case routes of
                    Some rs \<Rightarrow>
                      (case those rs of
                         None \<Rightarrow> []
                       | Some rs' \<Rightarrow> convert e q (map (Some \<circ> from_route) rs'))
                  | None \<Rightarrow>
                      (case destinations of
                         Some ds \<Rightarrow>
                           (case those ds of
                              None \<Rightarrow> []
                            | Some ds' \<Rightarrow> convert e q (map (Some \<circ> from_destination) ds'))
                       | None \<Rightarrow> []))))"
    unfolding getAISuggestions_def by (simp only: if_False)
  have "\<exists>items. s \<in> set (convert e q items)"
  proof (cases "chat_completion e q")
    case (Inl err)
    with assms eq show ?thesis by simp
  next
    case (Inr j)
    show ?thesis
    proof (cases j)
      case NotJson
      with assms eq Inr show ?thesis by simp
    next
      case JsonNull
      with assms eq Inr show ?thesis by simp
    next
      case (JsonValue sg rt ds)
      with assms eq Inr have
        "s \<in> set (case sg of
               Some items \<Rightarrow> convert e q items
             | None \<Rightarrow>
                 (case rt of
                    Some rs \<Rightarrow>
                      (case those rs of
                         None \<Rightarrow> []
                       | Some rs' \<Rightarrow> convert e q (map (Some \<circ> from_route) rs'))
                  | None \<Rightarrow>
                      (case ds of
                         Some ds \<Rightarrow>
                           (case those ds of
                              None \<Rightarrow> []
                            | Some ds' \<Rightarrow> convert e q (map (Some \<circ> from_destination) ds'))
                       | None \<Rightarrow> [])))" by simp
      then show ?thesis
        by (cases sg; cases rt; cases ds; cases "those (the rt)"; cases "those (the ds)") auto
    qed
  qed
  then show ?thesis using convert_members by blast
qed

lemma ai_shape:
  assumes "s \<in> set (getAISuggestions e q)"
  shows "source s = AI" and "relevanceScore s \<in> {20, 30, 40, 60, 80, 100}"
    and "type s = None \<or> type s = Some Route \<or> type s = Some Destination"
    and "type s = Some Route \<longrightarrow> truthy (origin s) \<and> truthy (destination s)"
proof -
  from ai_members[OF assms] consider p where "s = to_suggestion e q p"
    | "source s = AI \<and> relevanceScore s = 30 \<and> type s = None" by blast
  then have "source s = AI \<and> relevanceScore s \<in> {20, 30, 40, 60, 80, 100} \<and>
      (type s = None \<or> type s = Some Route \<or> type s = Some Destination) \<and>
      (type s = Some Route \<longrightarrow> truthy (origin s) \<and> truthy (destination s))"
  proof cases
    case 1
    show ?thesis
      using to_suggestion_source[of e q p] to_suggestion_score[of e q p]
        to_suggestion_type[of e q p] to_suggestion_route[of e q p]
      unfolding 1 by blast
  next
    case 2
    then show ?thesis by simp
  qed
  then show "source s = AI" and "relevanceScore s \<in> {20, 30, 40, 60, 80, 100}"
    and "type s = None \<or> type s = Some Route \<or> type s = Some Destination"
    and "type s = Some Route \<longrightarrow> truthy (origin s) \<and> truthy (destination s)"
    by blast+
qed

lemma allSuggestions_members:
  "s \<in> set (allSuggestions e q) \<Longrightarrow>
   s \<in> set (getStaticSuggestions q) \<or> s \<in> set (getDatabaseSuggestions e q) \<or>
   s \<in> set (getAISuggestions e q)"
  by (auto simp: allSuggestions_def Let_def split: if_splits)




text \<open>
  C2 (as the code has it). Every suggestion handed to the deduplicator has a score between
  20 and 110. A gazetteer suggestion carries the scorer's value for its name plus 10, so
  between 30 and 110; a history or generative suggestion carries a score between 20 and
  100.
\<close>

theorem candidate_scores:
  "\<forall>s \<in> set (allSuggestions e q).
     (source s = Static \<longrightarrow>
        relevanceScore s = calculateRelevanceScore (origin s) (destination s) (trim q) + 10 \<and>
        30 \<le> relevanceScore s \<and> relevanceScore s \<le> 110)
   \<and> (source s \<noteq> Static \<longrightarrow> 20 \<le> relevanceScore s \<and> relevanceScore s \<le> 100)"
proof
  fix s assume "s \<in> set (allSuggestions e q)"
  then consider "s \<in> set (getStaticSuggestions q)" | "s \<in> set (getDatabaseSuggestions e q)"
    | "s \<in> set (getAISuggestions e q)"
    using allSuggestions_members by blast
  then show "(source s = Static \<longrightarrow>
        relevanceScore s = calculateRelevanceScore (origin s) (destination s) (trim q) + 10 \<and>
        30 \<le> relevanceScore s \<and> relevanceScore s \<le> 110)
   \<and> (source s \<noteq> Static \<longrightarrow> 20 \<le> relevanceScore s \<and> relevanceScore s \<le> 100)"
  proof cases
    case 1
    have "relevanceScore s = calculateRelevanceScore (origin s) (destination s) (trim q) + 10"
      using static_shape(4)[OF 1] .
    moreover have "source s = Static" using static_shape(1)[OF 1] .
    ultimately show ?thesis
      using calc_range[of "origin s" "destination s" "trim q"] by auto
  next
    case 2
    show ?thesis using db_shape(1)[OF 2] db_shape(3)[OF 2] by auto
  next
    case 3
    show ?thesis using ai_shape(1)[OF 3] ai_shape(2)[OF 3] by auto
  qed
qed

lemma texas_member: "texas_static \<in> set (allSuggestions env_nokey ''texas'')"
  by (simp add: allSuggestions_def static_texas Let_def)

theorem candidate_scores_witness:
  "texas_static \<in> set (allSuggestions env_nokey ''texas'')
   \<and> source texas_static = Static
   \<and> 30 \<le> relevanceScore texas_static \<and> relevanceScore texas_static \<le> 110"
  using candidate_scores[of env_nokey "''texas''"] texas_member
  by (auto simp: texas_static_def)

text \<open>
  For the query \<open>texas\<close> the gazetteer suggestion for Texas is an exact match, 100, and
  is boosted to 110.
\<close>

theorem static_score_counterexample:
  "texas_static \<in> set (allSuggestions env_nokey ''texas'')
   \<and> relevanceScore texas_static = 110
   \<and> \<not> relevanceScore texas_static \<le> 100"
  using texas_member by (simp add: texas_static_def)

text \<open>
  C5 (as the code has it). Let \<open>o\<close> and \<open>d\<close> be origin and destination, lower-cased
  and trimmed, a missing field counting as empty. The identity key is \<open>o\<close>, the arrow and
  \<open>d\<close> when both are non-empty; the non-empty one when exactly one is; and the empty string
  when neither is. The label plays no part.
\<close>

theorem identity_key_cases:
  "(let o' = trim (toLowerCase (orEmpty (origin s)));
        d = trim (toLowerCase (orEmpty (destination s)))
    in (o' \<noteq> [] \<and> d \<noteq> [] \<longrightarrow> routeKey s = o' @ arrow @ d)
     \<and> (o' \<noteq> [] \<and> d = [] \<longrightarrow> routeKey s = o')
     \<and> (o' = [] \<and> d \<noteq> [] \<longrightarrow> routeKey s = d)
     \<and> (o' = [] \<and> d = [] \<longrightarrow> routeKey s = []))"
  by (simp add: routeKey_def normalizeRoute_def Let_def)

theorem identity_key_cases_witness:
  "routeKey dup_db = ''boston'' @ arrow @ ''boston''
   \<and> routeKey (dup_db\<lparr>destination := None\<rparr>) = ''boston''
   \<and> routeKey (dup_db\<lparr>origin := Some '' ''\<rparr>) = ''boston''
   \<and> routeKey park = []"
  using identity_key_cases[of dup_db] identity_key_cases[of "dup_db\<lparr>destination := None\<rparr>"]
    identity_key_cases[of "dup_db\<lparr>origin := Some '' ''\<rparr>"] identity_key_cases[of park]
  by (simp add: dup_db_def park_def Let_def str_eval)

text \<open>
  A suggestion labelled \<open>Yosemite\<close> without origin and destination has the empty key, not
  its lower-cased label.
\<close>

theorem identity_key_counterexample:
  "origin park = None \<and> destination park = None
   \<and> toLowerCase (label park) = ''yosemite'' \<and> routeKey park = []
   \<and> routeKey park \<noteq> toLowerCase (label park)"
  by (simp add: park_def routeKey_def normalizeRoute_def str_eval)

















































text \<open>
  C1. The handler does not cut the sorted list: for the query \<open>ia\<close>, without provider
  credential and with an empty trip store, the response has twelve suggestions, ten from the
  gazetteer and the two fallback routes.
\<close>

theorem no_truncation:
  "length (suggestions (body (fst (GET env_nokey 0 (req_of ''ia'') Map.empty)))) = 12"
  by code_simp

end
